theory Spec2Isabelle
  imports Main
begin

section \<open>The DNS collaborator\<close>

text \<open>
  An error object: what \<open>dns.resolveTxt\<close> hands to its callback, and what an operation
  raises. The field \<open>code\<close> is absent on a plain \<open>Error\<close> (the test suite builds one with
  \<open>new Error('no such domain')\<close>) and on a \<open>TypeError\<close>.
\<close>

record dns_error =
  code :: "string option"
  errmsg :: string

text \<open>
  A successful TXT resolution is an array of records, each an array of string segments.
  The resolver answers every name with an error or with such an array.
\<close>

type_synonym txt_records = "string list list"
type_synonym resolver = "string \<Rightarrow> dns_error + txt_records"

text \<open>
  The names handed to \<open>dns.resolveTxt\<close> so far, oldest first: what the mock of the test
  suite records as \<open>dns.resolveTxt.mock.calls\<close>. It is the only state an operation
  threads through.
\<close>

type_synonym calls = "string list"

definition resolveTxt :: "resolver \<Rightarrow> string \<Rightarrow> calls \<Rightarrow> (dns_error + txt_records) \<times> calls" where
  "resolveTxt dns name cs = (dns name, cs @ [name])"

text \<open>The error codes of Node's \<open>dns\<close> module that index.js names.\<close>

definition NOTFOUND :: string where
  "NOTFOUND = ''ENOTFOUND''"

definition NODATA :: string where
  "NODATA = ''ENODATA''"

definition SERVFAIL :: string where
  "SERVFAIL = ''ESERVFAIL''"

definition NO_DNS_RECORD :: "string list" where
  "NO_DNS_RECORD = [NOTFOUND, NODATA, SERVFAIL]"

text \<open>\<open>_.contains(NO_DNS_RECORD, err.code)\<close>: an absent code is in no list.\<close>

definition contains :: "string list \<Rightarrow> string option \<Rightarrow> bool" where
  "contains xs c = (case c of None \<Rightarrow> False | Some v \<Rightarrow> v \<in> set xs)"

section \<open>Parsed records\<close>

text \<open>
  The parsers \<open>spf-parse\<close> and \<open>dmarc-parse\<close> are packages of their own and enter every
  operation as a parameter. \<open>spf-parse\<close> reports what it finds as data: a validity flag
  and messages.

  What \<open>spf-parse\<close> returns, with the fields index.js reads. A mechanism without a value
  (such as \<open>all\<close>) has no \<open>value\<close> key, and the key \<open>messages\<close> is deleted when nothing
  was reported.
\<close>

record mechanism =
  prefixdesc :: string
  mech_type :: string
  mech_value :: "string option"

record spf_message =
  message :: string
  msg_type :: string

record spf_record =
  mechanisms :: "mechanism list"
  messages :: "spf_message list option"
  valid :: bool

text \<open>
  What \<open>dmarc-parse\<close> returns: an object of tags, kept as its list of entries. The call
  \<open>dmarcParse(rawDMARCRecord)\<close> in index.js is not guarded, so an exception of the parser
  (a \<open>TypeError\<close> is an error object without a code) reaches the caller: the parser answers
  with the error it throws or with a record.
\<close>

record dmarc_record =
  tags :: "(string \<times> string) list"

type_synonym spf_parser = "string \<Rightarrow> spf_record"
type_synonym dmarc_parser = "string \<Rightarrow> dns_error + dmarc_record"

definition ALL_MECHANISM_IS_NOT_THE_LAST :: string where
  "ALL_MECHANISM_IS_NOT_THE_LAST =
     ''One or more mechanisms were found after the \"all\" mechanism. These mechanisms will be ignored''"

definition ALL_AND_REDIRECT_ARE_MISSING :: string where
  "ALL_AND_REDIRECT_ARE_MISSING =
     ''SPF strings should always either use an \"all\" mechanism or a \"redirect\" modifier to explicitly terminate processing.''"

datatype setup_state = NOT_SETUP | INVALID | SETUP

section \<open>Helpers of the language and of underscore\<close>

definition startsWith :: "string \<Rightarrow> string \<Rightarrow> bool" where
  "startsWith val p = (take (length p) val = p)"

text \<open>\<open>_.chain(records).flatten()\<close>: \<open>null\<close> flattens to the empty array.\<close>

definition flatten :: "txt_records option \<Rightarrow> string list" where
  "flatten records = (case records of None \<Rightarrow> [] | Some rs \<Rightarrow> concat rs)"

text \<open>\<open>_.compact\<close> on strings: the empty string is the only falsy one.\<close>

definition compact :: "string list \<Rightarrow> string list" where
  "compact xs = filter (\<lambda>s. s \<noteq> []) xs"

text \<open>\<open>.first()\<close>: \<open>undefined\<close> on the empty array.\<close>

definition first :: "string list \<Rightarrow> string option" where
  "first xs = (case xs of [] \<Rightarrow> None | x # _ \<Rightarrow> Some x)"

text \<open>\<open>!raw\<close> for a string that may be \<open>undefined\<close>.\<close>

definition falsy :: "string option \<Rightarrow> bool" where
  "falsy raw = (case raw of None \<Rightarrow> True | Some s \<Rightarrow> s = [])"

text \<open>\<open>spfRecord.messages.some(m => m.message === text)\<close>.\<close>

definition some_message :: "spf_message list \<Rightarrow> string \<Rightarrow> bool" where
  "some_message ms t = list_ex (\<lambda>m. message m = t) ms"

text \<open>\<open>_.findWhere(list, {prefixdesc: 'Pass', type: 'include', value: sender})\<close>.\<close>

definition findWhere :: "mechanism list \<Rightarrow> string \<Rightarrow> mechanism option" where
  "findWhere ms sender =
     List.find (\<lambda>m. prefixdesc m = ''Pass'' \<and> mech_type m = ''include'' \<and> mech_value m = Some sender) ms"

section \<open>The operations of index.js\<close>

definition getDNSTXTRecords :: "resolver \<Rightarrow> string \<Rightarrow> calls \<Rightarrow> (dns_error + txt_records option) \<times> calls" where
  "getDNSTXTRecords dns domain cs =
     (case resolveTxt dns domain cs of
        (Inr records, cs') \<Rightarrow> (Inr (Some records), cs')
      | (Inl err, cs') \<Rightarrow>
          if contains NO_DNS_RECORD (code err) then (Inr None, cs') else (Inl err, cs'))"

definition getSPFRecord :: "resolver \<Rightarrow> spf_parser \<Rightarrow> string \<Rightarrow> calls \<Rightarrow> (dns_error + spf_record option) \<times> calls" where
  "getSPFRecord dns spfParse domain cs =
     (case getDNSTXTRecords dns domain cs of
        (Inl err, cs') \<Rightarrow> (Inl err, cs')
      | (Inr records, cs') \<Rightarrow>
          (let rawSPFRecord = List.find (\<lambda>val. startsWith val ''v=spf1'') (flatten records)
           in if falsy rawSPFRecord then (Inr None, cs')
              else (Inr (Some (spfParse (the rawSPFRecord))), cs')))"

record validations =
  allMechanismIsTheLast :: bool
  allMechanismOrRedirectModifierIsPresent :: bool

definition default_validations :: validations where
  "default_validations =
     \<lparr>allMechanismIsTheLast = False, allMechanismOrRedirectModifierIsPresent = False\<rparr>"

definition spfSetup :: "resolver \<Rightarrow> spf_parser \<Rightarrow> string \<Rightarrow> validations \<Rightarrow> calls \<Rightarrow> (dns_error + setup_state) \<times> calls" where
  "spfSetup dns spfParse domain vs cs =
     (case getSPFRecord dns spfParse domain cs of
        (Inl err, cs') \<Rightarrow> (Inl err, cs')
      | (Inr None, cs') \<Rightarrow> (Inr NOT_SETUP, cs')
      | (Inr (Some spfRecord), cs') \<Rightarrow>
          if \<not> valid spfRecord then (Inr INVALID, cs')
          else (case messages spfRecord of
                  Some ms \<Rightarrow>
                    if allMechanismIsTheLast vs \<and> some_message ms ALL_MECHANISM_IS_NOT_THE_LAST
                    then (Inr INVALID, cs')
                    else if allMechanismOrRedirectModifierIsPresent vs
                              \<and> some_message ms ALL_AND_REDIRECT_ARE_MISSING
                    then (Inr INVALID, cs')
                    else (Inr SETUP, cs')
                | None \<Rightarrow> (Inr SETUP, cs')))"

definition hasSPFSender :: "resolver \<Rightarrow> spf_parser \<Rightarrow> string \<Rightarrow> string \<Rightarrow> calls \<Rightarrow> (dns_error + bool) \<times> calls" where
  "hasSPFSender dns spfParse domain sender cs =
     (case getSPFRecord dns spfParse domain cs of
        (Inl err, cs') \<Rightarrow> (Inl err, cs')
      | (Inr None, cs') \<Rightarrow> (Inr False, cs')
      | (Inr (Some spfRecord), cs') \<Rightarrow>
          if \<not> valid spfRecord then (Inr False, cs')
          else (Inr (findWhere (mechanisms spfRecord) sender \<noteq> None), cs'))"

text \<open>
  The report of \<open>SpfInspector\<close>: index.js reads the lengths of \<open>report.found.includes\<close> and
  of \<open>report.found.domains\<close> and nothing else.
\<close>

record found =
  found_includes :: "string list"
  found_domains :: "string list"

record report =
  found :: found

text \<open>
  \<open>SpfInspector(domain, { maxDepth: limit }, true)\<close> comes from the package spf-master and
  is a parameter of the operation: it is given the domain, the depth bound and the flag,
  resolves what it resolves, and ends with a report or with an error.
\<close>

type_synonym inspector = "string \<Rightarrow> int \<Rightarrow> bool \<Rightarrow> calls \<Rightarrow> (dns_error + report) \<times> calls"

definition spfRecordResolvesWithinDnsLookupsLimit :: "inspector \<Rightarrow> string \<Rightarrow> int \<Rightarrow> calls \<Rightarrow> (dns_error + bool) \<times> calls" where
  "spfRecordResolvesWithinDnsLookupsLimit SpfInspector domain limit cs =
     (case SpfInspector domain limit True cs of
        (Inr report, cs') \<Rightarrow>
          (let numberOfIncludeLookups = length (found_includes (found report));
               numberOfALookups = length (found_domains (found report))
           in (Inr (int (numberOfIncludeLookups + numberOfALookups) \<le> limit), cs'))
      | (Inl err, cs') \<Rightarrow>
          if contains NO_DNS_RECORD (code err) then (Inr False, cs') else (Inl err, cs'))"

definition hasDKIMRecordForSelector :: "resolver \<Rightarrow> string \<Rightarrow> string \<Rightarrow> calls \<Rightarrow> (dns_error + setup_state) \<times> calls" where
  "hasDKIMRecordForSelector dns domain selector cs =
     (case resolveTxt dns (selector @ ''._domainkey.'' @ domain) cs of
        (Inr records, cs') \<Rightarrow>
          (if length (compact (flatten (Some records))) > 0 then (Inr SETUP, cs')
           else (Inr NOT_SETUP, cs'))
      | (Inl err, cs') \<Rightarrow>
          if contains NO_DNS_RECORD (code err) then (Inr NOT_SETUP, cs') else (Inl err, cs'))"

definition getDMARCRecord :: "resolver \<Rightarrow> dmarc_parser \<Rightarrow> string \<Rightarrow> calls \<Rightarrow> (dns_error + dmarc_record option) \<times> calls" where
  "getDMARCRecord dns dmarcParse domain cs =
     (case getDNSTXTRecords dns (''_dmarc.'' @ domain) cs of
        (Inl err, cs') \<Rightarrow> (Inl err, cs')
      | (Inr records, cs') \<Rightarrow>
          (let rawDMARCRecord = first (flatten records)
           in if falsy rawDMARCRecord then (Inr None, cs')
              else (case dmarcParse (the rawDMARCRecord) of
                      Inl thrown \<Rightarrow> (Inl thrown, cs')
                    | Inr dmarcRecord \<Rightarrow> (Inr (Some dmarcRecord), cs'))))"

definition dmarcSetup :: "resolver \<Rightarrow> dmarc_parser \<Rightarrow> string \<Rightarrow> calls \<Rightarrow> (dns_error + setup_state) \<times> calls" where
  "dmarcSetup dns dmarcParse domain cs =
     (case getDMARCRecord dns dmarcParse domain cs of
        (Inl err, cs') \<Rightarrow> (Inl err, cs')
      | (Inr None, cs') \<Rightarrow> (Inr NOT_SETUP, cs')
      | (Inr (Some dmarcRecord), cs') \<Rightarrow>
          if tags dmarcRecord \<noteq> [] then (Inr SETUP, cs') else (Inr INVALID, cs'))"

section \<open>The collaborator of the lookup-budget operation\<close>

text \<open>
  Modelled from the spec: \<open>SpfInspector\<close> of the package spf-master, which index.js calls
  and whose source is not part of the repository. The spec says that the walk starts at
  the root domain and that, when the SPF record of the root cannot be resolved, the DNS
  error of that resolution is what the caller of the inspector receives. What the walk
  does once the root has been resolved is the parameter \<open>walk\<close>.
\<close>

type_synonym walk = "txt_records \<Rightarrow> int \<Rightarrow> bool \<Rightarrow> calls \<Rightarrow> (dns_error + report) \<times> calls"

definition spec_SpfInspector :: "resolver \<Rightarrow> walk \<Rightarrow> inspector" where
  "spec_SpfInspector dns walk domain maxDepth stopOnMatch cs =
     (case resolveTxt dns domain cs of
        (Inl err, cs') \<Rightarrow> (Inl err, cs')
      | (Inr records, cs') \<Rightarrow> walk records maxDepth stopOnMatch cs')"

text \<open>
  Modelled from the spec: the walk behind the root, as far as the spec describes how it
  meets the resolver. The spec has the walk resolve one name after the other, depth
  first, and has it suspended at a resolution only; a resolution comes back with records
  or with a DNS error, the only errors there are, and an error is handed on to the caller
  as it is. Which names the walk resolves and what it tallies is left open: after each
  answer the walk chooses its next step, a further resolution or the final report.
\<close>

datatype plan = Report report | Resolve string "txt_records \<Rightarrow> plan"

primrec follow :: "resolver \<Rightarrow> plan \<Rightarrow> calls \<Rightarrow> (dns_error + report) \<times> calls" where
  "follow dns (Report rep) cs = (Inr rep, cs)"
| "follow dns (Resolve name next) cs =
     (case resolveTxt dns name cs of
        (Inl err, cs') \<Rightarrow> (Inl err, cs')
      | (Inr records, cs') \<Rightarrow> follow dns (next records) cs')"

definition spec_walk :: "resolver \<Rightarrow> (txt_records \<Rightarrow> int \<Rightarrow> bool \<Rightarrow> plan) \<Rightarrow> walk" where
  "spec_walk dns behind records maxDepth stopOnMatch cs =
     follow dns (behind records maxDepth stopOnMatch) cs"

section \<open>Zones and parsers for the examples\<close>

text \<open>
  A resolver that knows one name, \<open>_dmarc.valid.spf.com\<close>, and answers it with an empty
  TXT string followed by the policy of the test suite; every other name gets the error of
  the mock, \<open>new Error('no such domain')\<close>. With it comes a parser that reports the two tags
  of that policy, throws on a string of blanks and reports no tag for any other string.
\<close>

definition empty_first_dns :: resolver where
  "empty_first_dns name =
     (if name = ''_dmarc.valid.spf.com'' then Inr [[''''], [''v=DMARC1; p=none'']]
      else Inl \<lparr>code = None, errmsg = ''no such domain''\<rparr>)"

definition policy_dmarcParse :: dmarc_parser where
  "policy_dmarcParse raw =
     (if raw = ''v=DMARC1; p=none'' then Inr \<lparr>tags = [(''v'', ''DMARC1''), (''p'', ''none'')]\<rparr>
      else if list_all (\<lambda>c. c = CHR '' '') raw then Inl \<lparr>code = None, errmsg = ''TypeError''\<rparr>
      else Inr \<lparr>tags = []\<rparr>)"

text \<open>
  The zone of the test suite around \<open>valid.spf.com\<close>, with a record for the included
  \<open>_spf.google.com\<close> that includes a further name, and the mock's error for every other
  name. The parser returns the mechanisms written in these two records, and an invalid
  record without mechanisms for any other string.
\<close>

definition google_dns :: resolver where
  "google_dns name =
     (if name = ''valid.spf.com'' then Inr [[''v=spf1 include:_spf.google.com -all'']]
      else if name = ''_spf.google.com'' then Inr [[''v=spf1 include:_netblocks.google.com a:mail.google.com ~all'']]
      else Inl \<lparr>code = None, errmsg = ''no such domain''\<rparr>)"

definition google_spfParse :: spf_parser where
  "google_spfParse raw =
     (if raw = ''v=spf1 include:_spf.google.com -all''
      then \<lparr>mechanisms = [\<lparr>prefixdesc = ''Pass'', mech_type = ''include'',
                            mech_value = Some ''_spf.google.com''\<rparr>,
                          \<lparr>prefixdesc = ''Fail'', mech_type = ''all'', mech_value = None\<rparr>],
            messages = None, valid = True\<rparr>
      else if raw = ''v=spf1 include:_netblocks.google.com a:mail.google.com ~all''
      then \<lparr>mechanisms = [\<lparr>prefixdesc = ''Pass'', mech_type = ''include'',
                            mech_value = Some ''_netblocks.google.com''\<rparr>,
                          \<lparr>prefixdesc = ''Pass'', mech_type = ''a'',
                            mech_value = Some ''mail.google.com''\<rparr>,
                          \<lparr>prefixdesc = ''SoftFail'', mech_type = ''all'', mech_value = None\<rparr>],
            messages = None, valid = True\<rparr>
      else \<lparr>mechanisms = [], messages = None, valid = False\<rparr>)"

section \<open>Facts about the record lookups and the walk\<close>

lemma contains_NO_DNS_RECORD:
  "contains NO_DNS_RECORD c \<longleftrightarrow> c \<in> {Some NOTFOUND, Some NODATA, Some SERVFAIL}"
  by (auto simp: contains_def NO_DNS_RECORD_def split: option.splits)

lemma getDNSTXTRecords_found:
  "dns d = Inr rs \<Longrightarrow> getDNSTXTRecords dns d cs = (Inr (Some rs), cs @ [d])"
  by (simp add: getDNSTXTRecords_def resolveTxt_def)

lemma getDNSTXTRecords_failed:
  "dns d = Inl e \<Longrightarrow>
   getDNSTXTRecords dns d cs =
     (if contains NO_DNS_RECORD (code e) then Inr None else Inl e, cs @ [d])"
  by (simp add: getDNSTXTRecords_def resolveTxt_def)

lemma find_startsWith_not_falsy:
  "List.find (\<lambda>val. startsWith val ''v=spf1'') xs = Some raw \<Longrightarrow> \<not> falsy (Some raw)"
  by (auto simp: find_Some_iff startsWith_def falsy_def)

lemma getSPFRecord_failed:
  "dns d = Inl e \<Longrightarrow>
   getSPFRecord dns p d cs =
     (if contains NO_DNS_RECORD (code e) then Inr None else Inl e, cs @ [d])"
  by (simp add: getSPFRecord_def getDNSTXTRecords_failed flatten_def falsy_def)

lemma getSPFRecord_found:
  "dns d = Inr rs \<Longrightarrow>
   getSPFRecord dns p d cs =
     (Inr (map_option p (List.find (\<lambda>val. startsWith val ''v=spf1'') (concat rs))), cs @ [d])"
proof (cases "List.find (\<lambda>val. startsWith val ''v=spf1'') (concat rs)")
  case None
  assume "dns d = Inr rs"
  with None show ?thesis
    by (simp add: getSPFRecord_def getDNSTXTRecords_found flatten_def falsy_def)
next
  case (Some raw)
  assume "dns d = Inr rs"
  with Some find_startsWith_not_falsy [OF Some] show ?thesis
    by (simp add: getSPFRecord_def getDNSTXTRecords_found flatten_def)
qed

lemma getDMARCRecord_failed:
  "dns (''_dmarc.'' @ d) = Inl e \<Longrightarrow>
   getDMARCRecord dns p d cs =
     (if contains NO_DNS_RECORD (code e) then Inr None else Inl e, cs @ [''_dmarc.'' @ d])"
  by (simp add: getDMARCRecord_def getDNSTXTRecords_failed flatten_def falsy_def first_def)

lemma getDMARCRecord_found:
  "dns (''_dmarc.'' @ d) = Inr rs \<Longrightarrow>
   getDMARCRecord dns p d cs =
     (case concat rs of
        [] \<Rightarrow> Inr None
      | x # _ \<Rightarrow> if x = [] then Inr None
                 else (case p x of Inl thrown \<Rightarrow> Inl thrown | Inr r \<Rightarrow> Inr (Some r)),
      cs @ [''_dmarc.'' @ d])"
  by (cases "concat rs")
     (simp_all add: getDMARCRecord_def getDNSTXTRecords_found flatten_def falsy_def first_def
        split: sum.splits del: concat_eq_Nil_conv)

lemma find_None_startsWith:
  "(\<forall>val\<in>set xs. \<not> startsWith val ''v=spf1'') \<Longrightarrow>
   List.find (\<lambda>val. startsWith val ''v=spf1'') xs = None"
  by (simp add: find_None_iff)

lemma findWhere_Some_iff:
  "(\<exists>y. findWhere ms sender = Some y) \<longleftrightarrow>
     (\<exists>m\<in>set ms. mech_type m = ''include'' \<and> prefixdesc m = ''Pass'' \<and> mech_value m = Some sender)"
proof -
  let ?P = "\<lambda>m. prefixdesc m = ''Pass'' \<and> mech_type m = ''include'' \<and> mech_value m = Some sender"
  have "(\<exists>y. List.find ?P ms = Some y) \<longleftrightarrow> List.find ?P ms \<noteq> None"
    by simp
  also have "\<dots> \<longleftrightarrow> (\<exists>m\<in>set ms. ?P m)"
    unfolding find_None_iff by blast
  finally show ?thesis
    unfolding findWhere_def by blast
qed

lemma follow_outcome:
  "\<exists>names. snd (follow dns p cs) = cs @ names
     \<and> (\<forall>name\<in>set names. \<forall>err. dns name = Inl err \<longrightarrow> fst (follow dns p cs) = Inl err)
     \<and> (\<forall>err. fst (follow dns p cs) = Inl err \<longrightarrow> (\<exists>name\<in>set names. dns name = Inl err))"
proof (induction p arbitrary: cs)
  case (Report rep)
  show ?case
    by (rule exI [of _ "[]"]) simp
next
  case (Resolve name nxt)
  show ?case
  proof (cases "dns name")
    case (Inl e)
    then have "follow dns (Resolve name nxt) cs = (Inl e, cs @ [name])"
      by (simp add: resolveTxt_def)
    with Inl show ?thesis
      by (intro exI [of _ "[name]"]) auto
  next
    case (Inr recs)
    then have step: "follow dns (Resolve name nxt) cs = follow dns (nxt recs) (cs @ [name])"
      by (simp add: resolveTxt_def)
    have "nxt recs \<in> range nxt"
      by simp
    from Resolve.IH [OF this, of "cs @ [name]"]
    obtain names where
      log: "snd (follow dns (nxt recs) (cs @ [name])) = (cs @ [name]) @ names"
      and failed: "\<forall>n\<in>set names. \<forall>err. dns n = Inl err \<longrightarrow>
                     fst (follow dns (nxt recs) (cs @ [name])) = Inl err"
      and raised: "\<forall>err. fst (follow dns (nxt recs) (cs @ [name])) = Inl err \<longrightarrow>
                     (\<exists>n\<in>set names. dns n = Inl err)"
      by blast
    show ?thesis
    proof (intro exI [of _ "name # names"] conjI)
      show "snd (follow dns (Resolve name nxt) cs) = cs @ name # names"
        using log step by simp
      show "\<forall>n\<in>set (name # names). \<forall>err. dns n = Inl err \<longrightarrow>
              fst (follow dns (Resolve name nxt) cs) = Inl err"
        using failed Inr step by auto
      show "\<forall>err. fst (follow dns (Resolve name nxt) cs) = Inl err \<longrightarrow>
              (\<exists>n\<in>set (name # names). dns n = Inl err)"
        using raised step by auto
    qed
  qed
qed

lemma spec_SpfInspector_follow:
  "spec_SpfInspector dns (spec_walk dns behind) domain maxDepth stopOnMatch cs =
     follow dns (Resolve domain (\<lambda>records. behind records maxDepth stopOnMatch)) cs"
  by (simp add: spec_SpfInspector_def spec_walk_def split: sum.splits prod.splits)

lemma spec_SpfInspector_outcome:
  "\<exists>rest. snd (spec_SpfInspector dns (spec_walk dns behind) domain maxDepth stopOnMatch cs)
             = cs @ domain # rest
     \<and> (\<forall>name\<in>set (domain # rest). \<forall>err. dns name = Inl err \<longrightarrow>
           fst (spec_SpfInspector dns (spec_walk dns behind) domain maxDepth stopOnMatch cs) = Inl err)
     \<and> (\<forall>err. fst (spec_SpfInspector dns (spec_walk dns behind) domain maxDepth stopOnMatch cs) = Inl err
           \<longrightarrow> (\<exists>name\<in>set (domain # rest). dns name = Inl err))"
proof -
  let ?p = "Resolve domain (\<lambda>records. behind records maxDepth stopOnMatch)"
  obtain names where
    log: "snd (follow dns ?p cs) = cs @ names"
    and failed: "\<forall>name\<in>set names. \<forall>err. dns name = Inl err \<longrightarrow> fst (follow dns ?p cs) = Inl err"
    and raised: "\<forall>err. fst (follow dns ?p cs) = Inl err \<longrightarrow> (\<exists>name\<in>set names. dns name = Inl err)"
    using follow_outcome [of dns ?p cs] by blast
  have "\<exists>rest. snd (follow dns ?p cs) = cs @ domain # rest"
  proof (cases "dns domain")
    case (Inl e)
    then show ?thesis
      by (simp add: resolveTxt_def)
  next
    case (Inr recs)
    then show ?thesis
      using follow_outcome [of dns "behind recs maxDepth stopOnMatch" "cs @ [domain]"]
      by (auto simp: resolveTxt_def)
  qed
  then obtain rest where "names = domain # rest"
    using log by auto
  with log failed raised show ?thesis
    unfolding spec_SpfInspector_follow by blast
qed


lemma spfSetup_INVALID_resolved:
  "fst (spfSetup dns spfParse domain vs cs) = Inr INVALID \<Longrightarrow> \<exists>records. dns domain = Inr records"
  by (cases "dns domain") (auto simp: spfSetup_def getSPFRecord_failed split: if_splits)

text \<open>
  An exception of the DMARC parser is not caught: it is what \<open>dmarcSetup\<close> raises, as
  for the zone whose first string is a blank.
\<close>

lemma dmarcSetup_parser_raises:
  "dns (''_dmarc.'' @ domain) = Inr records \<Longrightarrow> concat records = raw # rest \<Longrightarrow> raw \<noteq> [] \<Longrightarrow>
   dmarcParse raw = Inl thrown \<Longrightarrow> fst (dmarcSetup dns dmarcParse domain cs) = Inl thrown"
  by (simp add: dmarcSetup_def getDMARCRecord_found)

lemma dmarcSetup_blank_record_raises:
  "fst (dmarcSetup (\<lambda>_. Inr [['' '']]) policy_dmarcParse ''valid.spf.com'' [])
     = Inl \<lparr>code = None, errmsg = ''TypeError''\<rparr>"
  by (simp add: dmarcSetup_def getDMARCRecord_found policy_dmarcParse_def)

section \<open>The claims\<close>

text \<open>
  C2: when the resolution of the root domain fails with NOTFOUND, NODATA or SERVFAIL,
  \<open>spfRecordResolvesWithinDnsLookupsLimit\<close> answers \<open>false\<close> for every limit, and the
  root domain is the one name that has been resolved. The inspector is the one modelled
  from the spec, with any walk behind the root resolution.
\<close>

theorem no_spf_record_is_not_within_limit:
  assumes "dns domain = Inl err"
    and "code err \<in> {Some NOTFOUND, Some NODATA, Some SERVFAIL}"
  shows "spfRecordResolvesWithinDnsLookupsLimit (spec_SpfInspector dns walk) domain limit cs
           = (Inr False, cs @ [domain])"
  using assms
  by (simp add: spfRecordResolvesWithinDnsLookupsLimit_def spec_SpfInspector_def resolveTxt_def
      contains_NO_DNS_RECORD)

theorem no_spf_record_is_not_within_limit_witness:
  "spfRecordResolvesWithinDnsLookupsLimit
     (spec_SpfInspector (\<lambda>_. Inl \<lparr>code = Some ''ENODATA'', errmsg = ''dns error''\<rparr>)
        (\<lambda>records maxDepth stopOnMatch cs.
           (Inr \<lparr>found = \<lparr>found_includes = [], found_domains = []\<rparr>\<rparr>, cs)))
     ''no.spf.com'' 10000 [] = (Inr False, [''no.spf.com''])"
  using no_spf_record_is_not_within_limit
          [where dns = "\<lambda>_. Inl \<lparr>code = Some ''ENODATA'', errmsg = ''dns error''\<rparr>"
             and err = "\<lparr>code = Some ''ENODATA'', errmsg = ''dns error''\<rparr>"
             and domain = "''no.spf.com''" and limit = 10000 and cs = "[]"
             and walk = "\<lambda>records maxDepth stopOnMatch cs.
                (Inr \<lparr>found = \<lparr>found_includes = [], found_domains = []\<rparr>\<rparr>, cs)"]
  by (simp add: NODATA_def)



text \<open>
  C4: with both validations off, a domain without a TXT string starting with \<open>v=spf1\<close>
  (none among the strings resolved, or a resolution that fails with NOTFOUND, NODATA or
  SERVFAIL) is \<open>not_setup\<close>; a domain whose first such string parses with the validity
  flag off is \<open>invalid\<close>; a domain whose first such string parses as valid is \<open>setup\<close>,
  whatever messages the parser attached.
\<close>

theorem spfSetup_default_validations:
  "(dns domain = Inr records \<and> (\<forall>val\<in>set (concat records). \<not> startsWith val ''v=spf1'')
      \<longrightarrow> fst (spfSetup dns spfParse domain default_validations cs) = Inr NOT_SETUP)
 \<and> (dns domain = Inl err \<and> code err \<in> {Some NOTFOUND, Some NODATA, Some SERVFAIL}
      \<longrightarrow> fst (spfSetup dns spfParse domain default_validations cs) = Inr NOT_SETUP)
 \<and> (dns domain = Inr records
      \<and> List.find (\<lambda>val. startsWith val ''v=spf1'') (concat records) = Some raw
      \<and> \<not> valid (spfParse raw)
      \<longrightarrow> fst (spfSetup dns spfParse domain default_validations cs) = Inr INVALID)
 \<and> (dns domain = Inr records
      \<and> List.find (\<lambda>val. startsWith val ''v=spf1'') (concat records) = Some raw
      \<and> valid (spfParse raw)
      \<longrightarrow> fst (spfSetup dns spfParse domain default_validations cs) = Inr SETUP)"
proof (intro conjI impI)
  assume "dns domain = Inr records \<and> (\<forall>val\<in>set (concat records). \<not> startsWith val ''v=spf1'')"
  then show "fst (spfSetup dns spfParse domain default_validations cs) = Inr NOT_SETUP"
    by (simp add: spfSetup_def getSPFRecord_found find_None_startsWith)
next
  assume "dns domain = Inl err \<and> code err \<in> {Some NOTFOUND, Some NODATA, Some SERVFAIL}"
  then show "fst (spfSetup dns spfParse domain default_validations cs) = Inr NOT_SETUP"
    by (simp add: spfSetup_def getSPFRecord_failed contains_NO_DNS_RECORD)
next
  assume "dns domain = Inr records
      \<and> List.find (\<lambda>val. startsWith val ''v=spf1'') (concat records) = Some raw
      \<and> \<not> valid (spfParse raw)"
  then show "fst (spfSetup dns spfParse domain default_validations cs) = Inr INVALID"
    by (simp add: spfSetup_def getSPFRecord_found)
next
  assume "dns domain = Inr records
      \<and> List.find (\<lambda>val. startsWith val ''v=spf1'') (concat records) = Some raw
      \<and> valid (spfParse raw)"
  then show "fst (spfSetup dns spfParse domain default_validations cs) = Inr SETUP"
    by (simp add: spfSetup_def getSPFRecord_found default_validations_def split: option.splits)
qed

theorem spfSetup_default_validations_witness:
  "fst (spfSetup (\<lambda>_. Inr [[''a value'']]) (\<lambda>_. \<lparr>mechanisms = [], messages = None, valid = True\<rparr>)
         ''valid.spf.com'' default_validations []) = Inr NOT_SETUP
 \<and> fst (spfSetup (\<lambda>_. Inl \<lparr>code = Some ''ENODATA'', errmsg = ''dns error''\<rparr>)
         (\<lambda>_. \<lparr>mechanisms = [], messages = None, valid = True\<rparr>)
         ''no.spf.com'' default_validations []) = Inr NOT_SETUP
 \<and> fst (spfSetup (\<lambda>_. Inr [[''v=spf1 redirect=foo.com redirect=bar.com ~all'']])
         (\<lambda>_. \<lparr>mechanisms = [], messages = Some [\<lparr>message = ''duplicate'', msg_type = ''error''\<rparr>],
                valid = False\<rparr>)
         ''invalid.spf.com'' default_validations []) = Inr INVALID
 \<and> fst (spfSetup (\<lambda>_. Inr [[''unrelated''], [''v=spf1 -all a'']])
         (\<lambda>_. \<lparr>mechanisms = [],
                messages = Some [\<lparr>message = ALL_MECHANISM_IS_NOT_THE_LAST, msg_type = ''warning''\<rparr>],
                valid = True\<rparr>)
         ''valid.spf.com'' default_validations []) = Inr SETUP"
  using spfSetup_default_validations
          [of "\<lambda>_. Inr [[''a value'']]" "''valid.spf.com''" "[[''a value'']]"
              "\<lambda>_. \<lparr>mechanisms = [], messages = None, valid = True\<rparr>" "[]"]
        spfSetup_default_validations
          [of "\<lambda>_. Inl \<lparr>code = Some ''ENODATA'', errmsg = ''dns error''\<rparr>" "''no.spf.com''" _
              "\<lambda>_. \<lparr>mechanisms = [], messages = None, valid = True\<rparr>" "[]"
              "\<lparr>code = Some ''ENODATA'', errmsg = ''dns error''\<rparr>"]
        spfSetup_default_validations
          [of "\<lambda>_. Inr [[''v=spf1 redirect=foo.com redirect=bar.com ~all'']]" "''invalid.spf.com''"
              "[[''v=spf1 redirect=foo.com redirect=bar.com ~all'']]"
              "\<lambda>_. \<lparr>mechanisms = [], messages = Some [\<lparr>message = ''duplicate'', msg_type = ''error''\<rparr>],
                     valid = False\<rparr>" "[]" _
              "''v=spf1 redirect=foo.com redirect=bar.com ~all''"]
        spfSetup_default_validations
          [of "\<lambda>_. Inr [[''unrelated''], [''v=spf1 -all a'']]" "''valid.spf.com''"
              "[[''unrelated''], [''v=spf1 -all a'']]"
              "\<lambda>_. \<lparr>mechanisms = [],
                     messages = Some [\<lparr>message = ALL_MECHANISM_IS_NOT_THE_LAST, msg_type = ''warning''\<rparr>],
                     valid = True\<rparr>" "[]" _
              "''v=spf1 -all a''"]
  by (simp add: startsWith_def NODATA_def)

text \<open>
  C5: for a domain whose first \<open>v=spf1\<close> string parses as valid, the result is \<open>invalid\<close>
  exactly when a requested validation meets its diagnostic: \<open>allMechanismIsTheLast\<close> with
  the message that mechanisms follow \<open>all\<close>, or \<open>allMechanismOrRedirectModifierIsPresent\<close>
  with the message that \<open>all\<close> and \<open>redirect\<close> are both missing. In every other case the
  result is \<open>setup\<close>.
\<close>

theorem spfSetup_valid_record:
  assumes "dns domain = Inr records"
    and "List.find (\<lambda>val. startsWith val ''v=spf1'') (concat records) = Some raw"
    and "valid (spfParse raw)"
  shows "fst (spfSetup dns spfParse domain vs cs) =
     Inr (if (allMechanismIsTheLast vs
               \<and> (\<exists>ms. messages (spfParse raw) = Some ms
                      \<and> (\<exists>m\<in>set ms. message m = ALL_MECHANISM_IS_NOT_THE_LAST)))
           \<or> (allMechanismOrRedirectModifierIsPresent vs
               \<and> (\<exists>ms. messages (spfParse raw) = Some ms
                      \<and> (\<exists>m\<in>set ms. message m = ALL_AND_REDIRECT_ARE_MISSING)))
          then INVALID else SETUP)"
proof (cases "messages (spfParse raw)")
  case None
  with assms show ?thesis
    by (simp add: spfSetup_def getSPFRecord_found)
next
  case (Some ms)
  with assms show ?thesis
    by (simp add: spfSetup_def getSPFRecord_found some_message_def list_ex_iff)
qed

theorem spfSetup_valid_record_witness:
  "fst (spfSetup (\<lambda>_. Inr [[''v=spf1 -all a'']])
         (\<lambda>_. \<lparr>mechanisms = [],
                messages = Some [\<lparr>message = ALL_MECHANISM_IS_NOT_THE_LAST, msg_type = ''warning''\<rparr>],
                valid = True\<rparr>)
         ''valid.spf.com''
         \<lparr>allMechanismIsTheLast = True, allMechanismOrRedirectModifierIsPresent = False\<rparr> [])
     = Inr INVALID
 \<and> fst (spfSetup (\<lambda>_. Inr [[''v=spf1 -all a'']])
         (\<lambda>_. \<lparr>mechanisms = [],
                messages = Some [\<lparr>message = ALL_MECHANISM_IS_NOT_THE_LAST, msg_type = ''warning''\<rparr>],
                valid = True\<rparr>)
         ''valid.spf.com''
         \<lparr>allMechanismIsTheLast = False, allMechanismOrRedirectModifierIsPresent = True\<rparr> [])
     = Inr SETUP"
  using spfSetup_valid_record
          [where dns = "\<lambda>_. Inr [[''v=spf1 -all a'']]" and domain = "''valid.spf.com''"
             and records = "[[''v=spf1 -all a'']]" and raw = "''v=spf1 -all a''"
             and spfParse = "\<lambda>_. \<lparr>mechanisms = [],
                messages = Some [\<lparr>message = ALL_MECHANISM_IS_NOT_THE_LAST, msg_type = ''warning''\<rparr>],
                valid = True\<rparr>"
             and vs = "\<lparr>allMechanismIsTheLast = True, allMechanismOrRedirectModifierIsPresent = False\<rparr>"
             and cs = "[]"]
        spfSetup_valid_record
          [where dns = "\<lambda>_. Inr [[''v=spf1 -all a'']]" and domain = "''valid.spf.com''"
             and records = "[[''v=spf1 -all a'']]" and raw = "''v=spf1 -all a''"
             and spfParse = "\<lambda>_. \<lparr>mechanisms = [],
                messages = Some [\<lparr>message = ALL_MECHANISM_IS_NOT_THE_LAST, msg_type = ''warning''\<rparr>],
                valid = True\<rparr>"
             and vs = "\<lparr>allMechanismIsTheLast = False, allMechanismOrRedirectModifierIsPresent = True\<rparr>"
             and cs = "[]"]
  by (simp add: startsWith_def ALL_MECHANISM_IS_NOT_THE_LAST_def ALL_AND_REDIRECT_ARE_MISSING_def)

text \<open>
  C6: \<open>hasSPFSender\<close> answers \<open>true\<close> exactly when the resolution of the domain succeeds,
  the first \<open>v=spf1\<close> string parses as valid and the mechanism list of that record holds an
  \<open>include\<close> mechanism with qualifier \<open>Pass\<close> whose value is the sender. It answers \<open>false\<close>
  when the record is absent, when it is invalid, and when it is valid but holds no such
  mechanism: a mechanism of another type with the sender as value, or an \<open>include\<close> of the
  sender in the record of an included domain, does not count. The domain itself is the
  only name it resolves, and its result is the same for any two resolvers that agree on
  that name.
\<close>

theorem hasSPFSender_top_level_include:
  "(fst (hasSPFSender dns spfParse domain sender cs) = Inr True \<longleftrightarrow>
      (\<exists>records raw. dns domain = Inr records
         \<and> List.find (\<lambda>val. startsWith val ''v=spf1'') (concat records) = Some raw
         \<and> valid (spfParse raw)
         \<and> (\<exists>m\<in>set (mechanisms (spfParse raw)).
               mech_type m = ''include'' \<and> prefixdesc m = ''Pass'' \<and> mech_value m = Some sender)))
 \<and> (dns domain = Inl err \<and> code err \<in> {Some NOTFOUND, Some NODATA, Some SERVFAIL}
      \<longrightarrow> fst (hasSPFSender dns spfParse domain sender cs) = Inr False)
 \<and> (dns domain = Inr records' \<and> (\<forall>val\<in>set (concat records'). \<not> startsWith val ''v=spf1'')
      \<longrightarrow> fst (hasSPFSender dns spfParse domain sender cs) = Inr False)
 \<and> (dns domain = Inr records'
      \<and> List.find (\<lambda>val. startsWith val ''v=spf1'') (concat records') = Some raw'
      \<and> \<not> valid (spfParse raw')
      \<longrightarrow> fst (hasSPFSender dns spfParse domain sender cs) = Inr False)
 \<and> (dns domain = Inr records'
      \<and> List.find (\<lambda>val. startsWith val ''v=spf1'') (concat records') = Some raw'
      \<and> valid (spfParse raw')
      \<and> (\<forall>m\<in>set (mechanisms (spfParse raw')).
            \<not> (mech_type m = ''include'' \<and> prefixdesc m = ''Pass'' \<and> mech_value m = Some sender))
      \<longrightarrow> fst (hasSPFSender dns spfParse domain sender cs) = Inr False)
 \<and> snd (hasSPFSender dns spfParse domain sender cs) = cs @ [domain]
 \<and> (dns' domain = dns domain
      \<longrightarrow> hasSPFSender dns' spfParse domain sender cs = hasSPFSender dns spfParse domain sender cs)"
proof (intro conjI impI)
  show "fst (hasSPFSender dns spfParse domain sender cs) = Inr True \<longleftrightarrow>
      (\<exists>records raw. dns domain = Inr records
         \<and> List.find (\<lambda>val. startsWith val ''v=spf1'') (concat records) = Some raw
         \<and> valid (spfParse raw)
         \<and> (\<exists>m\<in>set (mechanisms (spfParse raw)).
               mech_type m = ''include'' \<and> prefixdesc m = ''Pass'' \<and> mech_value m = Some sender))"
  proof (cases "dns domain")
    case (Inl e)
    then show ?thesis
      by (simp add: hasSPFSender_def getSPFRecord_failed)
  next
    case (Inr rs)
    show ?thesis
    proof (cases "List.find (\<lambda>val. startsWith val ''v=spf1'') (concat rs)")
      case None
      with Inr show ?thesis
        by (simp add: hasSPFSender_def getSPFRecord_found)
    next
      case (Some raw)
      with Inr show ?thesis
        by (simp add: hasSPFSender_def getSPFRecord_found findWhere_Some_iff)
    qed
  qed
next
  assume "dns domain = Inl err \<and> code err \<in> {Some NOTFOUND, Some NODATA, Some SERVFAIL}"
  then show "fst (hasSPFSender dns spfParse domain sender cs) = Inr False"
    by (simp add: hasSPFSender_def getSPFRecord_failed contains_NO_DNS_RECORD)
next
  assume "dns domain = Inr records' \<and> (\<forall>val\<in>set (concat records'). \<not> startsWith val ''v=spf1'')"
  then show "fst (hasSPFSender dns spfParse domain sender cs) = Inr False"
    by (simp add: hasSPFSender_def getSPFRecord_found find_None_startsWith)
next
  assume "dns domain = Inr records'
      \<and> List.find (\<lambda>val. startsWith val ''v=spf1'') (concat records') = Some raw'
      \<and> \<not> valid (spfParse raw')"
  then show "fst (hasSPFSender dns spfParse domain sender cs) = Inr False"
    by (simp add: hasSPFSender_def getSPFRecord_found)
next
  assume none: "dns domain = Inr records'
      \<and> List.find (\<lambda>val. startsWith val ''v=spf1'') (concat records') = Some raw'
      \<and> valid (spfParse raw')
      \<and> (\<forall>m\<in>set (mechanisms (spfParse raw')).
            \<not> (mech_type m = ''include'' \<and> prefixdesc m = ''Pass'' \<and> mech_value m = Some sender))"
  then have "\<not> (\<exists>y. findWhere (mechanisms (spfParse raw')) sender = Some y)"
    unfolding findWhere_Some_iff by blast
  with none show "fst (hasSPFSender dns spfParse domain sender cs) = Inr False"
    by (simp add: hasSPFSender_def getSPFRecord_found)
next
  show "snd (hasSPFSender dns spfParse domain sender cs) = cs @ [domain]"
    by (cases "dns domain")
       (simp_all add: hasSPFSender_def getSPFRecord_failed getSPFRecord_found split: option.splits)
next
  assume "dns' domain = dns domain"
  then show "hasSPFSender dns' spfParse domain sender cs = hasSPFSender dns spfParse domain sender cs"
    by (simp add: hasSPFSender_def getSPFRecord_def getDNSTXTRecords_def resolveTxt_def)
qed

theorem hasSPFSender_top_level_include_witness:
  "hasSPFSender google_dns google_spfParse ''valid.spf.com'' ''_spf.google.com'' []
     = (Inr True, [''valid.spf.com''])
 \<and> hasSPFSender google_dns google_spfParse ''valid.spf.com'' ''spf.protection.outlook.com'' []
     = (Inr False, [''valid.spf.com''])
 \<and> hasSPFSender google_dns google_spfParse ''valid.spf.com'' ''_netblocks.google.com'' []
     = (Inr False, [''valid.spf.com''])
 \<and> hasSPFSender google_dns google_spfParse ''_spf.google.com'' ''mail.google.com'' []
     = (Inr False, [''_spf.google.com''])
 \<and> fst (hasSPFSender (\<lambda>_. Inl \<lparr>code = Some ''ENODATA'', errmsg = ''dns error''\<rparr>) google_spfParse
          ''no.spf.com'' ''_spf.google.com'' []) = Inr False
 \<and> fst (hasSPFSender (\<lambda>_. Inr [[''a value'']]) google_spfParse
          ''no.spf.com'' ''_spf.google.com'' []) = Inr False
 \<and> fst (hasSPFSender (\<lambda>_. Inr [[''v=spf1 redirect=foo.com redirect=bar.com ~all'']]) google_spfParse
          ''invalid.spf.com'' ''_spf.google.com'' []) = Inr False
 \<and> hasSPFSender (\<lambda>_. Inr [[''v=spf1 include:_spf.google.com -all'']]) google_spfParse
       ''valid.spf.com'' ''_netblocks.google.com'' []
     = hasSPFSender google_dns google_spfParse ''valid.spf.com'' ''_netblocks.google.com'' []"
proof (intro conjI)
  note google = hasSPFSender_top_level_include
      [where dns = google_dns and spfParse = google_spfParse and domain = "''valid.spf.com''"
         and sender = "''_spf.google.com''" and cs = "[]"]
  have "\<exists>records raw. google_dns ''valid.spf.com'' = Inr records
         \<and> List.find (\<lambda>val. startsWith val ''v=spf1'') (concat records) = Some raw
         \<and> valid (google_spfParse raw)
         \<and> (\<exists>m\<in>set (mechanisms (google_spfParse raw)).
               mech_type m = ''include'' \<and> prefixdesc m = ''Pass''
               \<and> mech_value m = Some ''_spf.google.com'')"
    by (intro exI [of _ "[[''v=spf1 include:_spf.google.com -all'']]"]
              exI [of _ "''v=spf1 include:_spf.google.com -all''"])
       (simp add: startsWith_def google_dns_def google_spfParse_def)
  with google
  have "fst (hasSPFSender google_dns google_spfParse ''valid.spf.com'' ''_spf.google.com'' []) = Inr True"
    by blast
  moreover from google
  have "snd (hasSPFSender google_dns google_spfParse ''valid.spf.com'' ''_spf.google.com'' [])
          = [] @ [''valid.spf.com'']"
    by blast
  ultimately
  show "hasSPFSender google_dns google_spfParse ''valid.spf.com'' ''_spf.google.com'' []
          = (Inr True, [''valid.spf.com''])"
    by (simp add: prod_eq_iff)
next
  note outlook = hasSPFSender_top_level_include
      [where dns = google_dns and spfParse = google_spfParse and domain = "''valid.spf.com''"
         and sender = "''spf.protection.outlook.com''" and cs = "[]"
         and records' = "[[''v=spf1 include:_spf.google.com -all'']]"
         and raw' = "''v=spf1 include:_spf.google.com -all''"]
  have "fst (hasSPFSender google_dns google_spfParse ''valid.spf.com''
               ''spf.protection.outlook.com'' []) = Inr False"
    using outlook [THEN conjunct2, THEN conjunct2, THEN conjunct2, THEN conjunct2, THEN conjunct1]
    by (simp add: startsWith_def google_dns_def google_spfParse_def)
  moreover
  have "snd (hasSPFSender google_dns google_spfParse ''valid.spf.com''
               ''spf.protection.outlook.com'' []) = [] @ [''valid.spf.com'']"
    by (rule outlook [THEN conjunct2, THEN conjunct2, THEN conjunct2, THEN conjunct2,
                      THEN conjunct2, THEN conjunct1])
  ultimately
  show "hasSPFSender google_dns google_spfParse ''valid.spf.com'' ''spf.protection.outlook.com'' []
          = (Inr False, [''valid.spf.com''])"
    by (simp add: prod_eq_iff)
next
  note deeper = hasSPFSender_top_level_include
      [where dns = google_dns and spfParse = google_spfParse and domain = "''valid.spf.com''"
         and sender = "''_netblocks.google.com''" and cs = "[]"
         and records' = "[[''v=spf1 include:_spf.google.com -all'']]"
         and raw' = "''v=spf1 include:_spf.google.com -all''"]
  have "fst (hasSPFSender google_dns google_spfParse ''valid.spf.com''
               ''_netblocks.google.com'' []) = Inr False"
    using deeper [THEN conjunct2, THEN conjunct2, THEN conjunct2, THEN conjunct2, THEN conjunct1]
    by (simp add: startsWith_def google_dns_def google_spfParse_def)
  moreover
  have "snd (hasSPFSender google_dns google_spfParse ''valid.spf.com''
               ''_netblocks.google.com'' []) = [] @ [''valid.spf.com'']"
    by (rule deeper [THEN conjunct2, THEN conjunct2, THEN conjunct2, THEN conjunct2,
                     THEN conjunct2, THEN conjunct1])
  ultimately
  show "hasSPFSender google_dns google_spfParse ''valid.spf.com'' ''_netblocks.google.com'' []
          = (Inr False, [''valid.spf.com''])"
    by (simp add: prod_eq_iff)
next
  note other = hasSPFSender_top_level_include
      [where dns = google_dns and spfParse = google_spfParse and domain = "''_spf.google.com''"
         and sender = "''mail.google.com''" and cs = "[]"
         and records' = "[[''v=spf1 include:_netblocks.google.com a:mail.google.com ~all'']]"
         and raw' = "''v=spf1 include:_netblocks.google.com a:mail.google.com ~all''"]
  have "fst (hasSPFSender google_dns google_spfParse ''_spf.google.com'' ''mail.google.com'' [])
          = Inr False"
    using other [THEN conjunct2, THEN conjunct2, THEN conjunct2, THEN conjunct2, THEN conjunct1]
    by (simp add: startsWith_def google_dns_def google_spfParse_def)
  moreover
  have "snd (hasSPFSender google_dns google_spfParse ''_spf.google.com'' ''mail.google.com'' [])
          = [] @ [''_spf.google.com'']"
    by (rule other [THEN conjunct2, THEN conjunct2, THEN conjunct2, THEN conjunct2,
                    THEN conjunct2, THEN conjunct1])
  ultimately
  show "hasSPFSender google_dns google_spfParse ''_spf.google.com'' ''mail.google.com'' []
          = (Inr False, [''_spf.google.com''])"
    by (simp add: prod_eq_iff)
next
  show "fst (hasSPFSender (\<lambda>_. Inl \<lparr>code = Some ''ENODATA'', errmsg = ''dns error''\<rparr>) google_spfParse
          ''no.spf.com'' ''_spf.google.com'' []) = Inr False"
    using hasSPFSender_top_level_include
          [where dns = "\<lambda>_. Inl \<lparr>code = Some ''ENODATA'', errmsg = ''dns error''\<rparr>"
             and err = "\<lparr>code = Some ''ENODATA'', errmsg = ''dns error''\<rparr>"
             and spfParse = google_spfParse
             and domain = "''no.spf.com''" and sender = "''_spf.google.com''" and cs = "[]",
           THEN conjunct2, THEN conjunct1]
    by (simp add: NODATA_def)
next
  show "fst (hasSPFSender (\<lambda>_. Inr [[''a value'']]) google_spfParse
          ''no.spf.com'' ''_spf.google.com'' []) = Inr False"
    using hasSPFSender_top_level_include
          [where dns = "\<lambda>_. Inr [[''a value'']]" and records' = "[[''a value'']]"
             and spfParse = google_spfParse
             and domain = "''no.spf.com''" and sender = "''_spf.google.com''" and cs = "[]",
           THEN conjunct2, THEN conjunct2, THEN conjunct1]
    by (simp add: startsWith_def)
next
  show "fst (hasSPFSender (\<lambda>_. Inr [[''v=spf1 redirect=foo.com redirect=bar.com ~all'']]) google_spfParse
          ''invalid.spf.com'' ''_spf.google.com'' []) = Inr False"
    using hasSPFSender_top_level_include
          [where dns = "\<lambda>_. Inr [[''v=spf1 redirect=foo.com redirect=bar.com ~all'']]"
             and records' = "[[''v=spf1 redirect=foo.com redirect=bar.com ~all'']]"
             and raw' = "''v=spf1 redirect=foo.com redirect=bar.com ~all''"
             and spfParse = google_spfParse
             and domain = "''invalid.spf.com''" and sender = "''_spf.google.com''" and cs = "[]",
           THEN conjunct2, THEN conjunct2, THEN conjunct2, THEN conjunct1]
    by (simp add: startsWith_def google_spfParse_def)
next
  have "(\<lambda>_. Inr [[''v=spf1 include:_spf.google.com -all'']]) ''valid.spf.com''
          = google_dns ''valid.spf.com''"
    by (simp add: google_dns_def)
  then show "hasSPFSender (\<lambda>_. Inr [[''v=spf1 include:_spf.google.com -all'']]) google_spfParse
       ''valid.spf.com'' ''_netblocks.google.com'' []
     = hasSPFSender google_dns google_spfParse ''valid.spf.com'' ''_netblocks.google.com'' []"
    by (rule hasSPFSender_top_level_include
               [where dns = google_dns
                  and dns' = "\<lambda>_. Inr [[''v=spf1 include:_spf.google.com -all'']]"
                  and spfParse = google_spfParse
                  and domain = "''valid.spf.com''" and sender = "''_netblocks.google.com''"
                  and cs = "[]",
                THEN conjunct2, THEN conjunct2, THEN conjunct2, THEN conjunct2, THEN conjunct2,
                THEN conjunct2, THEN mp])
qed

text \<open>
  C7: \<open>hasDKIMRecordForSelector\<close> resolves \<open><selector>._domainkey.<domain>\<close> and answers
  \<open>setup\<close> exactly when that resolution succeeds with at least one non-empty string among
  the flattened segments. It answers \<open>not_setup\<close> when every segment is empty (also when
  there is none) and when the resolution fails with NOTFOUND, NODATA or SERVFAIL, and it
  never answers \<open>invalid\<close>.
\<close>

theorem hasDKIMRecordForSelector_setup_iff:
  "(fst (hasDKIMRecordForSelector dns domain selector cs) = Inr SETUP \<longleftrightarrow>
      (\<exists>records. dns (selector @ ''._domainkey.'' @ domain) = Inr records
         \<and> (\<exists>s\<in>set (concat records). s \<noteq> [])))
 \<and> (dns (selector @ ''._domainkey.'' @ domain) = Inr records' \<and> (\<forall>s\<in>set (concat records'). s = [])
      \<longrightarrow> fst (hasDKIMRecordForSelector dns domain selector cs) = Inr NOT_SETUP)
 \<and> (dns (selector @ ''._domainkey.'' @ domain) = Inl err
      \<and> code err \<in> {Some NOTFOUND, Some NODATA, Some SERVFAIL}
      \<longrightarrow> fst (hasDKIMRecordForSelector dns domain selector cs) = Inr NOT_SETUP)
 \<and> fst (hasDKIMRecordForSelector dns domain selector cs) \<noteq> Inr INVALID
 \<and> snd (hasDKIMRecordForSelector dns domain selector cs) = cs @ [selector @ ''._domainkey.'' @ domain]"
proof -
  have nonempty: "0 < length (compact (flatten (Some rs))) \<longleftrightarrow> (\<exists>s\<in>set (concat rs). s \<noteq> [])"
    for rs :: txt_records
    unfolding compact_def flatten_def length_greater_0_conv filter_empty_conv
    by simp
  show ?thesis
  proof (cases "dns (selector @ ''._domainkey.'' @ domain)")
    case (Inl e)
    then show ?thesis
      by (simp add: hasDKIMRecordForSelector_def resolveTxt_def contains_NO_DNS_RECORD)
  next
    case (Inr rs)
    then show ?thesis
      using nonempty [of rs]
      by (auto simp: hasDKIMRecordForSelector_def resolveTxt_def simp del: length_greater_0_conv)
  qed
qed

theorem hasDKIMRecordForSelector_setup_iff_witness:
  "hasDKIMRecordForSelector (\<lambda>_. Inr [[''a value'']]) ''valid.spf.com'' ''google'' []
     = (Inr SETUP, [''google._domainkey.valid.spf.com''])
 \<and> hasDKIMRecordForSelector (\<lambda>_. Inr [[''''], []]) ''valid.spf.com'' ''google'' []
     = (Inr NOT_SETUP, [''google._domainkey.valid.spf.com''])
 \<and> hasDKIMRecordForSelector (\<lambda>_. Inl \<lparr>code = Some ''ESERVFAIL'', errmsg = ''dns error''\<rparr>)
       ''missing-dkim.com'' ''google'' []
     = (Inr NOT_SETUP, [''google._domainkey.missing-dkim.com''])"
proof (intro conjI)
  show "hasDKIMRecordForSelector (\<lambda>_. Inr [[''a value'']]) ''valid.spf.com'' ''google'' []
     = (Inr SETUP, [''google._domainkey.valid.spf.com''])"
    using hasDKIMRecordForSelector_setup_iff
          [where dns = "\<lambda>_. Inr [[''a value'']]" and domain = "''valid.spf.com''"
             and selector = "''google''" and cs = "[]"]
    by (simp add: prod_eq_iff)
  show "hasDKIMRecordForSelector (\<lambda>_. Inr [[''''], []]) ''valid.spf.com'' ''google'' []
     = (Inr NOT_SETUP, [''google._domainkey.valid.spf.com''])"
    using hasDKIMRecordForSelector_setup_iff
          [where dns = "\<lambda>_. Inr [[''''], []]" and records' = "[[''''], []]"
             and domain = "''valid.spf.com''" and selector = "''google''" and cs = "[]"]
    by (simp add: prod_eq_iff)
  show "hasDKIMRecordForSelector (\<lambda>_. Inl \<lparr>code = Some ''ESERVFAIL'', errmsg = ''dns error''\<rparr>)
       ''missing-dkim.com'' ''google'' []
     = (Inr NOT_SETUP, [''google._domainkey.missing-dkim.com''])"
    using hasDKIMRecordForSelector_setup_iff
          [where dns = "\<lambda>_. Inl \<lparr>code = Some ''ESERVFAIL'', errmsg = ''dns error''\<rparr>"
             and err = "\<lparr>code = Some ''ESERVFAIL'', errmsg = ''dns error''\<rparr>"
             and domain = "''missing-dkim.com''" and selector = "''google''" and cs = "[]"]
    by (simp add: SERVFAIL_def prod_eq_iff)
qed

text \<open>
  C8 as stated fails: the zone has TXT records at \<open>_dmarc.valid.spf.com\<close>, the first
  flattened string is empty, and \<open>dmarcSetup\<close> answers \<open>not_setup\<close> without handing it to
  the parser, where the claim promises \<open>invalid\<close> or \<open>setup\<close> according to the tags of that
  string.
\<close>

theorem dmarcSetup_empty_first_record_counterexample:
  "empty_first_dns ''_dmarc.valid.spf.com'' = Inr [[''''], [''v=DMARC1; p=none'']]
 \<and> fst (dmarcSetup empty_first_dns policy_dmarcParse ''valid.spf.com'' []) = Inr NOT_SETUP"
  by (simp add: dmarcSetup_def getDMARCRecord_found empty_first_dns_def)

text \<open>
  C8, amended: \<open>dmarcSetup\<close> resolves \<open>_dmarc.<domain>\<close> and nothing else. It answers
  \<open>not_setup\<close> when the resolution fails with NOTFOUND, NODATA or SERVFAIL, when
  flattening leaves no string, and when the first flattened string is empty. When the
  first flattened string is not empty it hands that string, and no other, to the parser;
  for the record that the parser returns it answers \<open>invalid\<close> if the tags are empty and
  \<open>setup\<close> if they are not.
\<close>

theorem dmarcSetup_first_record:
  "(dns (''_dmarc.'' @ domain) = Inl err \<and> code err \<in> {Some NOTFOUND, Some NODATA, Some SERVFAIL}
      \<longrightarrow> fst (dmarcSetup dns dmarcParse domain cs) = Inr NOT_SETUP)
 \<and> (dns (''_dmarc.'' @ domain) = Inr records \<and> concat records = []
      \<longrightarrow> fst (dmarcSetup dns dmarcParse domain cs) = Inr NOT_SETUP)
 \<and> (dns (''_dmarc.'' @ domain) = Inr records \<and> concat records = [] # rest
      \<longrightarrow> fst (dmarcSetup dns dmarcParse domain cs) = Inr NOT_SETUP)
 \<and> (dns (''_dmarc.'' @ domain) = Inr records \<and> concat records = raw # rest \<and> raw \<noteq> []
      \<and> dmarcParse raw = Inr dmarcRecord
      \<longrightarrow> fst (dmarcSetup dns dmarcParse domain cs) =
            Inr (if tags dmarcRecord = [] then INVALID else SETUP))
 \<and> snd (dmarcSetup dns dmarcParse domain cs) = cs @ [''_dmarc.'' @ domain]"
proof (intro conjI impI)
  assume "dns (''_dmarc.'' @ domain) = Inl err \<and> code err \<in> {Some NOTFOUND, Some NODATA, Some SERVFAIL}"
  then show "fst (dmarcSetup dns dmarcParse domain cs) = Inr NOT_SETUP"
    by (simp add: dmarcSetup_def getDMARCRecord_failed contains_NO_DNS_RECORD)
next
  assume "dns (''_dmarc.'' @ domain) = Inr records \<and> concat records = []"
  then show "fst (dmarcSetup dns dmarcParse domain cs) = Inr NOT_SETUP"
    by (simp add: dmarcSetup_def getDMARCRecord_found del: concat_eq_Nil_conv)
next
  assume "dns (''_dmarc.'' @ domain) = Inr records \<and> concat records = [] # rest"
  then show "fst (dmarcSetup dns dmarcParse domain cs) = Inr NOT_SETUP"
    by (simp add: dmarcSetup_def getDMARCRecord_found)
next
  assume "dns (''_dmarc.'' @ domain) = Inr records \<and> concat records = raw # rest \<and> raw \<noteq> []
      \<and> dmarcParse raw = Inr dmarcRecord"
  then show "fst (dmarcSetup dns dmarcParse domain cs) =
            Inr (if tags dmarcRecord = [] then INVALID else SETUP)"
    by (simp add: dmarcSetup_def getDMARCRecord_found)
next
  show "snd (dmarcSetup dns dmarcParse domain cs) = cs @ [''_dmarc.'' @ domain]"
  proof (cases "dns (''_dmarc.'' @ domain)")
    case (Inl e)
    then show ?thesis
      by (simp add: dmarcSetup_def getDMARCRecord_failed)
  next
    case (Inr rs)
    then show ?thesis
      by (simp add: dmarcSetup_def getDMARCRecord_found split: list.splits sum.splits)
  qed
qed

theorem dmarcSetup_first_record_witness:
  "dmarcSetup (\<lambda>_. Inl \<lparr>code = Some ''ENOTFOUND'', errmsg = ''dns error''\<rparr>)
       policy_dmarcParse ''no.spf.com'' [] = (Inr NOT_SETUP, [''_dmarc.no.spf.com''])
 \<and> fst (dmarcSetup (\<lambda>_. Inr [[]]) policy_dmarcParse ''no.spf.com'' []) = Inr NOT_SETUP
 \<and> fst (dmarcSetup empty_first_dns policy_dmarcParse ''valid.spf.com'' []) = Inr NOT_SETUP
 \<and> fst (dmarcSetup (\<lambda>_. Inr [[''invalid dmarc'']]) policy_dmarcParse ''invalid.spf.com'' [])
       = Inr INVALID
 \<and> fst (dmarcSetup (\<lambda>_. Inr [[''v=DMARC1; p=none''], [''invalid dmarc'']]) policy_dmarcParse
          ''valid.spf.com'' []) = Inr SETUP"
proof (intro conjI)
  show "dmarcSetup (\<lambda>_. Inl \<lparr>code = Some ''ENOTFOUND'', errmsg = ''dns error''\<rparr>)
       policy_dmarcParse ''no.spf.com'' [] = (Inr NOT_SETUP, [''_dmarc.no.spf.com''])"
    using dmarcSetup_first_record
            [where dns = "\<lambda>_. Inl \<lparr>code = Some ''ENOTFOUND'', errmsg = ''dns error''\<rparr>"
               and err = "\<lparr>code = Some ''ENOTFOUND'', errmsg = ''dns error''\<rparr>"
               and dmarcParse = policy_dmarcParse and domain = "''no.spf.com''" and cs = "[]"]
    by (simp add: NOTFOUND_def prod_eq_iff)
  show "fst (dmarcSetup (\<lambda>_. Inr [[]]) policy_dmarcParse ''no.spf.com'' []) = Inr NOT_SETUP"
    using dmarcSetup_first_record
            [where dns = "\<lambda>_. Inr [[]]" and records = "[[]]"
               and dmarcParse = policy_dmarcParse and domain = "''no.spf.com''" and cs = "[]"]
    by simp
  show "fst (dmarcSetup empty_first_dns policy_dmarcParse ''valid.spf.com'' []) = Inr NOT_SETUP"
    using dmarcSetup_first_record
            [where dns = empty_first_dns and records = "[[''''], [''v=DMARC1; p=none'']]"
               and rest = "[''v=DMARC1; p=none'']"
               and dmarcParse = policy_dmarcParse and domain = "''valid.spf.com''" and cs = "[]"]
    by (simp add: empty_first_dns_def)
  show "fst (dmarcSetup (\<lambda>_. Inr [[''invalid dmarc'']]) policy_dmarcParse ''invalid.spf.com'' [])
       = Inr INVALID"
    using dmarcSetup_first_record
            [where dns = "\<lambda>_. Inr [[''invalid dmarc'']]" and records = "[[''invalid dmarc'']]"
               and raw = "''invalid dmarc''" and rest = "[]" and dmarcRecord = "\<lparr>tags = []\<rparr>"
               and dmarcParse = policy_dmarcParse and domain = "''invalid.spf.com''" and cs = "[]"]
    by (simp add: policy_dmarcParse_def)
  show "fst (dmarcSetup (\<lambda>_. Inr [[''v=DMARC1; p=none''], [''invalid dmarc'']]) policy_dmarcParse
          ''valid.spf.com'' []) = Inr SETUP"
    using dmarcSetup_first_record
            [where dns = "\<lambda>_. Inr [[''v=DMARC1; p=none''], [''invalid dmarc'']]"
               and records = "[[''v=DMARC1; p=none''], [''invalid dmarc'']]"
               and raw = "''v=DMARC1; p=none''" and rest = "[''invalid dmarc'']"
               and dmarcRecord = "\<lparr>tags = [(''v'', ''DMARC1''), (''p'', ''none'')]\<rparr>"
               and dmarcParse = policy_dmarcParse and domain = "''valid.spf.com''" and cs = "[]"]
    by (simp add: policy_dmarcParse_def)
qed

text \<open>
  C10: an SPF record that fails structural parsing does not stop
  \<open>spfRecordResolvesWithinDnsLookupsLimit\<close>. For a domain for which \<open>spfSetup\<close> answers
  \<open>invalid\<close> the root resolves, and when the names of the walk resolve as well the
  inspector ends with its report and the answer is the comparison of the two tallies of
  that report with the limit: \<open>true\<close> as soon as they total at most the limit. The
  operation is handed no parsed record and reads no validity flag.
\<close>

theorem lookups_limit_ignores_validity:
  assumes "fst (spfSetup dns spfParse domain vs cs0) = Inr INVALID"
  shows "\<exists>rest.
      snd (spfRecordResolvesWithinDnsLookupsLimit
             (spec_SpfInspector dns (spec_walk dns behind)) domain limit cs) = cs @ domain # rest
    \<and> ((\<forall>name\<in>set rest. \<forall>err. dns name \<noteq> Inl err) \<longrightarrow>
         (\<exists>rep. fst (spec_SpfInspector dns (spec_walk dns behind) domain limit True cs) = Inr rep
            \<and> fst (spfRecordResolvesWithinDnsLookupsLimit
                     (spec_SpfInspector dns (spec_walk dns behind)) domain limit cs)
                = Inr (int (length (found_includes (found rep)) + length (found_domains (found rep)))
                         \<le> limit)))"
proof -
  let ?insp = "spec_SpfInspector dns (spec_walk dns behind) domain limit True cs"
  let ?op = "spfRecordResolvesWithinDnsLookupsLimit
               (spec_SpfInspector dns (spec_walk dns behind)) domain limit cs"
  from assms obtain records where root: "dns domain = Inr records"
    using spfSetup_INVALID_resolved by blast
  obtain rest where
    log: "snd ?insp = cs @ domain # rest"
    and raised: "\<forall>err. fst ?insp = Inl err \<longrightarrow> (\<exists>name\<in>set (domain # rest). dns name = Inl err)"
    using spec_SpfInspector_outcome [of dns behind domain limit True cs] by blast
  have same_log: "snd ?op = snd ?insp"
    by (cases ?insp) (simp add: spfRecordResolvesWithinDnsLookupsLimit_def split: sum.splits)
  have answer: "fst ?op = Inr (int (length (found_includes (found rep))
                                    + length (found_domains (found rep))) \<le> limit)"
    if "fst ?insp = Inr rep" for rep
    using that by (cases ?insp) (simp add: spfRecordResolvesWithinDnsLookupsLimit_def)
  have ends: "\<exists>rep. fst ?insp = Inr rep" if "\<forall>name\<in>set rest. \<forall>err. dns name \<noteq> Inl err"
  proof (cases "fst ?insp")
    case (Inl err)
    with raised obtain name where "name \<in> set (domain # rest)" and "dns name = Inl err"
      by blast
    with root that show ?thesis
      by auto
  next
    case (Inr rep)
    then show ?thesis
      by blast
  qed
  show ?thesis
  proof (intro exI [of _ rest] conjI impI)
    show "snd ?op = cs @ domain # rest"
      using same_log log by simp
  next
    assume "\<forall>name\<in>set rest. \<forall>err. dns name \<noteq> Inl err"
    then obtain rep where "fst ?insp = Inr rep"
      using ends by blast
    with answer [OF this]
    show "\<exists>rep. fst ?insp = Inr rep
            \<and> fst ?op = Inr (int (length (found_includes (found rep))
                                    + length (found_domains (found rep))) \<le> limit)"
      by blast
  qed
qed

theorem lookups_limit_ignores_validity_witness:
  "fst (spfSetup (\<lambda>_. Inr [[''v=spf1 redirect=foo.com redirect=bar.com ~all'']]) google_spfParse
          ''invalid.spf.com'' default_validations []) = Inr INVALID
 \<and> spfRecordResolvesWithinDnsLookupsLimit
       (spec_SpfInspector (\<lambda>_. Inr [[''v=spf1 redirect=foo.com redirect=bar.com ~all'']])
          (spec_walk (\<lambda>_. Inr [[''v=spf1 redirect=foo.com redirect=bar.com ~all'']])
             (\<lambda>records maxDepth stopOnMatch.
                Report \<lparr>found = \<lparr>found_includes = [], found_domains = []\<rparr>\<rparr>)))
       ''invalid.spf.com'' 10 [] = (Inr True, [''invalid.spf.com''])"
proof
  let ?dns = "(\<lambda>_. Inr [[''v=spf1 redirect=foo.com redirect=bar.com ~all'']]) :: resolver"
  let ?behind = "\<lambda>(records :: txt_records) (maxDepth :: int) (stopOnMatch :: bool).
                    Report \<lparr>found = \<lparr>found_includes = [], found_domains = []\<rparr>\<rparr>"
  let ?insp = "spec_SpfInspector ?dns (spec_walk ?dns ?behind) ''invalid.spf.com'' 10 True []"
  let ?op = "spfRecordResolvesWithinDnsLookupsLimit
               (spec_SpfInspector ?dns (spec_walk ?dns ?behind)) ''invalid.spf.com'' 10 []"
  show invalid: "fst (spfSetup ?dns google_spfParse ''invalid.spf.com'' default_validations [])
                   = Inr INVALID"
    by (simp add: spfSetup_def getSPFRecord_found startsWith_def google_spfParse_def)
  have report: "?insp = (Inr \<lparr>found = \<lparr>found_includes = [], found_domains = []\<rparr>\<rparr>,
                         [''invalid.spf.com''])"
    by (simp add: spec_SpfInspector_def spec_walk_def resolveTxt_def)
  from lookups_limit_ignores_validity [OF invalid, of ?behind 10 "[]"]
  obtain rest where
    log: "snd ?op = [] @ ''invalid.spf.com'' # rest"
    and answer: "(\<forall>name\<in>set rest. \<forall>err. ?dns name \<noteq> Inl err) \<longrightarrow>
         (\<exists>rep. fst ?insp = Inr rep
            \<and> fst ?op = Inr (int (length (found_includes (found rep))
                                    + length (found_domains (found rep))) \<le> 10))"
    by blast
  have "\<forall>name\<in>set rest. \<forall>err. ?dns name \<noteq> Inl err"
    by simp
  with answer obtain rep where ended: "fst ?insp = Inr rep"
    and compared: "fst ?op = Inr (int (length (found_includes (found rep))
                             + length (found_domains (found rep))) \<le> 10)"
    by blast
  from ended have "rep = \<lparr>found = \<lparr>found_includes = [], found_domains = []\<rparr>\<rparr>"
    unfolding report by simp
  with compared have "fst ?op = Inr True"
    by (simp only: found.simps report.simps list.size) simp
  moreover have "snd ?op = [''invalid.spf.com'']"
    by (simp add: spfRecordResolvesWithinDnsLookupsLimit_def report)
  ultimately show "?op = (Inr True, [''invalid.spf.com''])"
    by (simp add: prod_eq_iff)
qed

end
